theory Spec2Isabelle
  imports Main "HOL-Library.Word" "HOL-Library.Multiset"
begin

unbundle bit_operations_syntax

section \<open>Errors\<close>

text \<open>
  The sentinel errors of \<^verbatim>\<open>pkg/bpf/errors.go\<close>, the pipeline's and the sink's own
  sentinels (\<^verbatim>\<open>errSinkNotInit\<close>, \<^verbatim>\<open>errAcctNotInitialized\<close>, \<^verbatim>\<open>errSinkName\<close>),
  \<^verbatim>\<open>errors.Wrap\<close> as a constructor, and \<^verbatim>\<open>External\<close> for an error handed back by a
  collaborator (kernel probe loading, the InfluxDB client).
\<close>

datatype error =
    errNotInRange
  | errProbeStarted
  | errProbeNotStarted
  | errDupConsumer
  | errNoConsumer
  | errConsumerNil
  | errSinkNotInit
  | errAcctNotInitialized
  | errSinkName
  | External string
  | Wrap error string

text \<open>
  How a call ends: it returns a value, or the Go runtime panics (a nil pointer is
  dereferenced, a method is called on a nil interface).
\<close>

datatype 'a outcome = Returns 'a | Panics

section \<open>Consumers (\<^verbatim>\<open>pkg/bpf/acct_consumer.go\<close>)\<close>

type_synonym ConsumerMode = "8 word"

definition ConsumerUpdate :: ConsumerMode where
  "ConsumerUpdate = 1"

definition ConsumerDestroy :: ConsumerMode where
  "ConsumerDestroy = 2"

definition ConsumerAll :: ConsumerMode where
  "ConsumerAll = (ConsumerUpdate OR ConsumerDestroy)"

text \<open>
  \<^verbatim>\<open>type Consumer struct\<close>. The channel field holds a reference; \<open>'ch\<close> is the type of
  channel references.
\<close>

record 'ch Consumer =
  name :: string
  events :: 'ch
  lost :: "64 word"
  mode :: ConsumerMode

definition NewConsumer :: "string \<Rightarrow> 'ch \<Rightarrow> ConsumerMode \<Rightarrow> 'ch Consumer" where
  "NewConsumer nm evs md =
     (let md' = (if md = 0 then ConsumerAll else md)
      in \<lparr>name = nm, events = evs, lost = 0, mode = md'\<rparr>)"

definition WantUpdate :: "'ch Consumer \<Rightarrow> bool" where
  "WantUpdate ac = ((mode ac AND ConsumerUpdate) > 0)"

definition WantDestroy :: "'ch Consumer \<Rightarrow> bool" where
  "WantDestroy ac = ((mode ac AND ConsumerDestroy) > 0)"


subsection \<open>Slices of pointers\<close>

text \<open>
  A Go slice is a window of \<open>len\<close> elements on a backing array of \<open>cap\<close> slots.
  \<open>elems\<close> are the \<open>len\<close> visible elements, \<open>spare\<close> the slots of the backing array
  from \<open>len\<close> up to \<open>cap\<close>, which a later \<^verbatim>\<open>append\<close> reuses. The nil slice has neither.
  A pointer is an \<open>option\<close>: \<open>None\<close> is nil.
\<close>

record 'a slice =
  elems :: "'a list"
  spare :: "'a list"

definition nil_slice :: "'a slice" where
  "nil_slice = \<lparr>elems = [], spare = []\<rparr>"

text \<open>
  \<^verbatim>\<open>append(s, x)\<close>: the next spare slot is overwritten when there is one; otherwise
  the runtime copies the elements to a fresh zeroed array whose capacity it chooses
  (\<open>grow n\<close> for a slice that must hold \<open>n\<close> elements; the runtime is not part of the
  repository, so the policy is a parameter).
\<close>

definition append_slice :: "(nat \<Rightarrow> nat) \<Rightarrow> 'a option slice \<Rightarrow> 'a option \<Rightarrow> 'a option slice" where
  "append_slice grow s x =
     (case spare s of
        _ # rest \<Rightarrow> \<lparr>elems = elems s @ [x], spare = rest\<rparr>
      | [] \<Rightarrow> (let n = length (elems s) + 1
               in \<lparr>elems = elems s @ [x], spare = replicate (grow n - n) None\<rparr>))"

subsection \<open>The consumer registry of a probe\<close>

text \<open>
  The \<^verbatim>\<open>Probe\<close> struct is declared outside the files at hand; its fields are read off
  their uses: \<^verbatim>\<open>ap.consumers\<close> is a slice of \<^verbatim>\<open>*Consumer\<close>, and the probe has a
  running flag. \<^verbatim>\<open>consumerMu\<close> serialises the registry operations, which are modelled
  one at a time.
\<close>

record 'ch Probe =
  consumers :: "'ch Consumer option slice"
  started :: bool

text \<open>
  The three registry functions share one loop,
  \<^verbatim>\<open>for i, c := range ap.consumers { if c.name == nm { ... return } }\<close>:
  it finds the first index whose consumer has the name, and \<^verbatim>\<open>c.name\<close> panics on a
  nil element. \<open>name_index nm cs i\<close> runs it on the elements \<open>cs\<close> that start at index \<open>i\<close>.
\<close>

fun name_index :: "string \<Rightarrow> 'ch Consumer option list \<Rightarrow> nat \<Rightarrow> nat option outcome" where
  "name_index nm [] i = Returns None"
| "name_index nm (None # cs) i = Panics"
| "name_index nm (Some c # cs) i =
     (if name c = nm then Returns (Some i) else name_index nm cs (Suc i))"

definition RegisterConsumer ::
  "(nat \<Rightarrow> nat) \<Rightarrow> 'ch Consumer option \<Rightarrow> 'ch Probe \<Rightarrow> (error option \<times> 'ch Probe) outcome" where
  "RegisterConsumer grow ac ap =
     (case ac of
        None \<Rightarrow> Returns (Some errConsumerNil, ap)
      | Some a \<Rightarrow>
          (case name_index (name a) (elems (consumers ap)) 0 of
             Panics \<Rightarrow> Panics
           | Returns (Some i) \<Rightarrow> Returns (Some errDupConsumer, ap)
           | Returns None \<Rightarrow>
               Returns (None, ap\<lparr>consumers := append_slice grow (consumers ap) (Some a)\<rparr>)))"

text \<open>
  In the loop body of \<^verbatim>\<open>RemoveConsumer\<close> the index \<open>i\<close> comes from the range loop, so
  \<open>i\<close> and \<open>len - 1\<close> are within the slice and neither assignment can panic. The
  reslice \<^verbatim>\<open>ap.consumers[:len-1]\<close> leaves the last slot in the backing array, as the
  first spare slot.
\<close>

definition RemoveConsumer ::
  "'ch Consumer option \<Rightarrow> 'ch Probe \<Rightarrow> (error option \<times> 'ch Probe) outcome" where
  "RemoveConsumer ac ap =
     (case ac of
        None \<Rightarrow> Returns (Some errConsumerNil, ap)
      | Some a \<Rightarrow>
          (case name_index (name a) (elems (consumers ap)) 0 of
             Panics \<Rightarrow> Panics
           | Returns None \<Rightarrow> Returns (Some errNoConsumer, ap)
           | Returns (Some i) \<Rightarrow>
               (let s = consumers ap;
                    n = length (elems s);
                    e1 = (elems s)[i := elems s ! (n - 1)];
                    e2 = e1[n - 1 := None]
                in Returns (None,
                     ap\<lparr>consumers := \<lparr>elems = take (n - 1) e2,
                                        spare = drop (n - 1) e2 @ spare s\<rparr>\<rparr>))))"

definition GetConsumer :: "string \<Rightarrow> 'ch Probe \<Rightarrow> 'ch Consumer option outcome" where
  "GetConsumer nm ap =
     (case name_index nm (elems (consumers ap)) 0 of
        Panics \<Rightarrow> Panics
      | Returns None \<Rightarrow> Returns None
      | Returns (Some i) \<Rightarrow> Returns (elems (consumers ap) ! i))"

text \<open>
  The registry as the exported operations leave it: no registered pointer is nil
  (\<^verbatim>\<open>RegisterConsumer\<close> refuses nil) and no two registered consumers share a name.
\<close>

definition registry_inv :: "'ch Probe \<Rightarrow> bool" where
  "registry_inv ap =
     (None \<notin> set (elems (consumers ap)) \<and>
      distinct (map (\<lambda>c. name (the c)) (elems (consumers ap))))"

section \<open>Sinks as the pipeline sees them\<close>

text \<open>
  The pipeline knows a sink through the interface \<^verbatim>\<open>sinks.Sink\<close> only. A sink object
  is a record of what its methods answer, with the log of the events \<^verbatim>\<open>Push\<close> was
  called with. Interface values are references: the pipeline holds references
  \<open>sink_ref\<close> into a store of sink objects, so that a sink registered twice is one
  object. The nil interface value is \<open>None\<close>.
\<close>

record 'e Sink =
  sName :: string
  sIsInit :: bool
  sWantUpdate :: bool
  sWantDestroy :: bool
  pushed :: "'e list"

type_synonym sink_ref = nat

type_synonym 'e sink_store = "sink_ref \<Rightarrow> 'e Sink"

definition Push :: "'e \<Rightarrow> sink_ref \<Rightarrow> 'e sink_store \<Rightarrow> 'e sink_store" where
  "Push e r h = h(r := (h r)\<lparr>pushed := pushed (h r) @ [e]\<rparr>)"

section \<open>The pipeline (\<^verbatim>\<open>internal/pipeline\<close>)\<close>

record Stats =
  EventsTotal :: "64 word"
  AcctBytesTotal :: "64 word"
  EventsUpdate :: "64 word"
  AcctBytesUpdate :: "64 word"
  EventsDestroy :: "64 word"
  AcctBytesDestroy :: "64 word"
  AcctUpdateQueueLen :: "64 word"
  AcctDestroyQueueLen :: "64 word"

text \<open>The two channels of a pipeline, as the consumers registered on the probe refer to them.\<close>

datatype pipeline_chan = RefUpdateChan | RefDestroyChan

text \<open>
  \<^verbatim>\<open>type Pipeline struct\<close>. The two \<^verbatim>\<open>sync.Once\<close> gates are flags (\<open>True\<close> once
  consumed); a channel is nil (\<open>None\<close>) or holds its buffered events; \<open>workers\<close>
  counts the worker goroutines launched so far.
\<close>

record 'e Pipeline =
  stats :: Stats
  init :: bool
  start :: bool
  acctProbe :: "pipeline_chan Probe option"
  acctUpdateChan :: "'e list option"
  acctDestroyChan :: "'e list option"
  acctSinks :: "sink_ref list"
  workers :: nat

definition zero_Stats :: Stats where
  "zero_Stats = \<lparr>EventsTotal = 0, AcctBytesTotal = 0, EventsUpdate = 0, AcctBytesUpdate = 0,
     EventsDestroy = 0, AcctBytesDestroy = 0, AcctUpdateQueueLen = 0, AcctDestroyQueueLen = 0\<rparr>"

definition New :: "'e Pipeline" where
  "New = \<lparr>stats = zero_Stats, init = False, start = False, acctProbe = None,
     acctUpdateChan = None, acctDestroyChan = None, acctSinks = [], workers = 0\<rparr>"

subsection \<open>Registering sinks\<close>

text \<open>
  \<^verbatim>\<open>warnSysctl\<close> only writes to the log, which is not part of the pipeline; the branch
  on \<^verbatim>\<open>s.WantDestroy()\<close> therefore leaves the state as it is.
\<close>

definition RegisterSink ::
  "sink_ref option \<Rightarrow> 'e sink_store \<Rightarrow> 'e Pipeline \<Rightarrow> (error option \<times> 'e Pipeline) outcome" where
  "RegisterSink s h p =
     (case s of
        None \<Rightarrow> Panics
      | Some r \<Rightarrow>
          if \<not> sIsInit (h r) then Returns (Some errSinkNotInit, p)
          else Returns (None, p\<lparr>acctSinks := acctSinks p @ [r]\<rparr>))"

definition GetSinks :: "'e Pipeline \<Rightarrow> sink_ref list" where
  "GetSinks p = acctSinks p"

subsection \<open>The workers\<close>

text \<open>
  One iteration of \<^verbatim>\<open>acctUpdateWorker\<close> after it received the event \<open>ae\<close>: the five
  atomic updates of the statistics, then the fan-out. \<open>EventLength\<close> is the constant
  \<^verbatim>\<open>bpf.EventLength\<close>, declared outside the files at hand, and \<open>qlen\<close> is what
  \<^verbatim>\<open>len(p.acctUpdateChan)\<close> reads at that moment (it depends on the producer).
\<close>

fun fanoutUpdate :: "'e \<Rightarrow> sink_ref list \<Rightarrow> 'e sink_store \<Rightarrow> 'e sink_store" where
  "fanoutUpdate ae [] h = h"
| "fanoutUpdate ae (s # ss) h =
     fanoutUpdate ae ss (if sWantUpdate (h s) then Push ae s h else h)"

fun fanoutDestroy :: "'e \<Rightarrow> sink_ref list \<Rightarrow> 'e sink_store \<Rightarrow> 'e sink_store" where
  "fanoutDestroy ae [] h = h"
| "fanoutDestroy ae (s # ss) h =
     fanoutDestroy ae ss (if sWantDestroy (h s) then Push ae s h else h)"

definition updateStats :: "64 word \<Rightarrow> 64 word \<Rightarrow> Stats \<Rightarrow> Stats" where
  "updateStats EventLength qlen st =
     st\<lparr>EventsTotal := EventsTotal st + 1,
        AcctBytesTotal := AcctBytesTotal st + EventLength,
        EventsUpdate := EventsUpdate st + 1,
        AcctBytesUpdate := AcctBytesUpdate st + EventLength,
        AcctUpdateQueueLen := qlen\<rparr>"

definition destroyStats :: "64 word \<Rightarrow> 64 word \<Rightarrow> Stats \<Rightarrow> Stats" where
  "destroyStats EventLength qlen st =
     st\<lparr>EventsTotal := EventsTotal st + 1,
        AcctBytesTotal := AcctBytesTotal st + EventLength,
        EventsDestroy := EventsDestroy st + 1,
        AcctBytesDestroy := AcctBytesDestroy st + EventLength,
        AcctDestroyQueueLen := qlen\<rparr>"

definition acctUpdateStep ::
  "64 word \<Rightarrow> 'e \<Rightarrow> 64 word \<Rightarrow> 'e Pipeline \<times> 'e sink_store \<Rightarrow> 'e Pipeline \<times> 'e sink_store" where
  "acctUpdateStep EventLength ae qlen ph =
     (case ph of (p, h) \<Rightarrow>
        (p\<lparr>stats := updateStats EventLength qlen (stats p)\<rparr>,
         fanoutUpdate ae (acctSinks p) h))"

definition acctDestroyStep ::
  "64 word \<Rightarrow> 'e \<Rightarrow> 64 word \<Rightarrow> 'e Pipeline \<times> 'e sink_store \<Rightarrow> 'e Pipeline \<times> 'e sink_store" where
  "acctDestroyStep EventLength ae qlen ph =
     (case ph of (p, h) \<Rightarrow>
        (p\<lparr>stats := destroyStats EventLength qlen (stats p)\<rparr>,
         fanoutDestroy ae (acctSinks p) h))"

text \<open>
  The worker loops: each runs its step on the events it receives, in order, until its
  channel is closed. A receive is the event with the queue length read after it.
\<close>

fun acctUpdateWorker ::
  "64 word \<Rightarrow> ('e \<times> 64 word) list \<Rightarrow> 'e Pipeline \<times> 'e sink_store \<Rightarrow> 'e Pipeline \<times> 'e sink_store" where
  "acctUpdateWorker EventLength [] ph = ph"
| "acctUpdateWorker EventLength ((ae, qlen) # rest) ph =
     acctUpdateWorker EventLength rest (acctUpdateStep EventLength ae qlen ph)"

fun acctDestroyWorker ::
  "64 word \<Rightarrow> ('e \<times> 64 word) list \<Rightarrow> 'e Pipeline \<times> 'e sink_store \<Rightarrow> 'e Pipeline \<times> 'e sink_store" where
  "acctDestroyWorker EventLength [] ph = ph"
| "acctDestroyWorker EventLength ((ae, qlen) # rest) ph =
     acctDestroyWorker EventLength rest (acctDestroyStep EventLength ae qlen ph)"

text \<open>
  The two workers run side by side. A schedule lists their completed iterations in the
  order in which they took effect.
\<close>

datatype 'e received = FromUpdateChan 'e "64 word" | FromDestroyChan 'e "64 word"

fun workerStep ::
  "64 word \<Rightarrow> 'e received \<Rightarrow> 'e Pipeline \<times> 'e sink_store \<Rightarrow> 'e Pipeline \<times> 'e sink_store" where
  "workerStep EventLength (FromUpdateChan ae qlen) ph = acctUpdateStep EventLength ae qlen ph"
| "workerStep EventLength (FromDestroyChan ae qlen) ph = acctDestroyStep EventLength ae qlen ph"

fun runWorkers ::
  "64 word \<Rightarrow> 'e received list \<Rightarrow> 'e Pipeline \<times> 'e sink_store \<Rightarrow> 'e Pipeline \<times> 'e sink_store" where
  "runWorkers EventLength [] ph = ph"
| "runWorkers EventLength (r # rs) ph = runWorkers EventLength rs (workerStep EventLength r ph)"

definition stat_conservation :: "64 word \<Rightarrow> Stats \<Rightarrow> bool" where
  "stat_conservation EventLength st =
     (EventsTotal st = EventsUpdate st + EventsDestroy st \<and>
      AcctBytesTotal st = EventsTotal st * EventLength)"

subsection \<open>Init, Start and Stop\<close>

text \<open>
  \<^verbatim>\<open>bpf.Config\<close>, of which \<^verbatim>\<open>initAcct\<close> sets the one field \<^verbatim>\<open>CooldownMillis\<close>.
\<close>

record Config =
  CooldownMillis :: nat

text \<open>The configuration \<^verbatim>\<open>initAcct\<close> builds: \<^verbatim>\<open>bpf.Config{CooldownMillis: 2000}\<close>.\<close>

definition initAcct_cfg :: Config where
  "initAcct_cfg = \<lparr>CooldownMillis = 2000\<rparr>"

text \<open>
  \<^verbatim>\<open>initAcct\<close>. \<^verbatim>\<open>bpf.NewProbe\<close> loads the kernel probe and is outside the files at
  hand: \<open>NewProbe\<close> is what it answers for a configuration. The two channels are made
  empty (capacity 1024).
\<close>

definition initAcct ::
  "(nat \<Rightarrow> nat) \<Rightarrow> (Config \<Rightarrow> error + pipeline_chan Probe) \<Rightarrow> 'e Pipeline
     \<Rightarrow> (error option \<times> 'e Pipeline) outcome" where
  "initAcct grow NewProbe p =
     (let cfg = initAcct_cfg in
      case NewProbe cfg of
        Inl err \<Rightarrow> Returns (Some (Wrap err ''initializing BPF probe''), p)
      | Inr ap \<Rightarrow>
          (let p1 = p\<lparr>acctUpdateChan := Some [], acctDestroyChan := Some []\<rparr>;
               au = NewConsumer ''AcctUpdate'' RefUpdateChan ConsumerUpdate
           in case RegisterConsumer grow (Some au) ap of
                Panics \<Rightarrow> Panics
              | Returns (Some err, ap1) \<Rightarrow>
                  Returns (Some (Wrap err ''registering update consumer to probe''), p1)
              | Returns (None, ap1) \<Rightarrow>
                  (let ad = NewConsumer ''AcctDestroy'' RefDestroyChan ConsumerDestroy
                   in case RegisterConsumer grow (Some ad) ap1 of
                        Panics \<Rightarrow> Panics
                      | Returns (Some err, ap2) \<Rightarrow>
                          Returns (Some (Wrap err ''registering destroy consumer to probe''), p1)
                      | Returns (None, ap2) \<Rightarrow>
                          Returns (None, p1\<lparr>acctProbe := Some ap2\<rparr>))))"

text \<open>\<^verbatim>\<open>p.init.Do\<close> runs \<^verbatim>\<open>initAcct\<close> on the first call only; later calls return nil.\<close>

definition Init ::
  "(nat \<Rightarrow> nat) \<Rightarrow> (Config \<Rightarrow> error + pipeline_chan Probe) \<Rightarrow> 'e Pipeline
     \<Rightarrow> (error option \<times> 'e Pipeline) outcome" where
  "Init grow NewProbe p =
     (if init p then Returns (None, p)
      else initAcct grow NewProbe (p\<lparr>init := True\<rparr>))"

text \<open>
  \<^verbatim>\<open>startAcct\<close> launches the two workers, then starts the probe. \<^verbatim>\<open>Probe.Start\<close> is
  outside the files at hand: \<open>ProbeStart\<close> is what it answers and how it leaves the
  probe. \<^verbatim>\<open>Start\<close> has checked that the probe is not nil.
\<close>

definition startAcct ::
  "(pipeline_chan Probe \<Rightarrow> error option \<times> pipeline_chan Probe) \<Rightarrow> 'e Pipeline
     \<Rightarrow> (error option \<times> 'e Pipeline) outcome" where
  "startAcct ProbeStart p =
     (let p1 = p\<lparr>workers := workers p + 2\<rparr> in
      case acctProbe p1 of
        None \<Rightarrow> Panics
      | Some ap \<Rightarrow>
          (case ProbeStart ap of
             (Some err, ap') \<Rightarrow>
               Returns (Some (Wrap err ''starting Probe''), p1\<lparr>acctProbe := Some ap'\<rparr>)
           | (None, ap') \<Rightarrow> Returns (None, p1\<lparr>acctProbe := Some ap'\<rparr>)))"

text \<open>
  \<^verbatim>\<open>Start\<close>: \<^verbatim>\<open>p.start.Do\<close> runs \<^verbatim>\<open>startAcct\<close> if the gate is still open and closes
  it, whatever \<^verbatim>\<open>startAcct\<close> returns; \<^verbatim>\<open>err\<close> stays nil when the gate was closed.
\<close>

definition Start ::
  "(pipeline_chan Probe \<Rightarrow> error option \<times> pipeline_chan Probe) \<Rightarrow> 'e Pipeline
     \<Rightarrow> (error option \<times> 'e Pipeline) outcome" where
  "Start ProbeStart p =
     (if acctProbe p = None then Returns (Some errAcctNotInitialized, p)
      else if start p then Returns (None, p)
      else startAcct ProbeStart (p\<lparr>start := True\<rparr>))"

text \<open>
  Modelled from the spec: \<^verbatim>\<open>Probe.Stop\<close>, which is outside the files at hand. The spec
  has it fail with \<^verbatim>\<open>NotRunning\<close> unless the probe is running and otherwise stop the
  probe, and notes that it faults when called through the nil probe of a pipeline on
  which \<^verbatim>\<open>Init\<close> never ran (the method reads the receiver's fields).
\<close>

definition Probe_Stop ::
  "'ch Probe option \<Rightarrow> (error option \<times> 'ch Probe option) outcome" where
  "Probe_Stop ap =
     (case ap of
        None \<Rightarrow> Panics
      | Some a \<Rightarrow>
          if \<not> started a then Returns (Some errProbeNotStarted, Some a)
          else Returns (None, Some (a\<lparr>started := False\<rparr>)))"

text \<open>\<^verbatim>\<open>Pipeline.Stop\<close>: \<^verbatim>\<open>return p.acctProbe.Stop()\<close>, with no check of the probe.\<close>

definition Stop :: "'e Pipeline \<Rightarrow> (error option \<times> 'e Pipeline) outcome" where
  "Stop p =
     (case Probe_Stop (acctProbe p) of
        Panics \<Rightarrow> Panics
      | Returns (err, ap') \<Rightarrow> Returns (err, p\<lparr>acctProbe := ap'\<rparr>))"

section \<open>The cooldown filter\<close>

text \<open>
  Modelled from the spec: the cooldown filter. The probe that applies it is outside
  the files at hand; of the filter they hold only the default \<^verbatim>\<open>CooldownMillis: 2000\<close>
  of \<^verbatim>\<open>initAcct\<close>. The spec's rules: the key is \<open>(net_ns, connection_id)\<close>; on an
  Update with key \<open>K\<close> at timestamp \<open>T\<close>, if \<open>last[K]\<close> exists and
  \<open>T - last[K] < cooldown_ms\<close>, drop, else deliver and set \<open>last[K] = T\<close>; on a
  Destroy with key \<open>K\<close>, always deliver and remove \<open>last[K]\<close>. Timestamps and the
  cooldown are integers in one unit, as the spec compares them.
\<close>

datatype kind = Update | Destroy

type_synonym flow_key = "32 word \<times> 32 word"

datatype verdict = Deliver | Drop

definition cooldown_filter ::
  "int \<Rightarrow> kind \<Rightarrow> flow_key \<Rightarrow> int \<Rightarrow> (flow_key \<rightharpoonup> int) \<Rightarrow> verdict \<times> (flow_key \<rightharpoonup> int)" where
  "cooldown_filter cooldown_ms k K T lastT =
     (case k of
        Update \<Rightarrow>
          (case lastT K of
             Some t \<Rightarrow> if T - t < cooldown_ms then (Drop, lastT) else (Deliver, lastT(K \<mapsto> T))
           | None \<Rightarrow> (Deliver, lastT(K \<mapsto> T)))
      | Destroy \<Rightarrow> (Deliver, lastT(K := None)))"

section \<open>The InfluxDB sink (\<^verbatim>\<open>internal/sinks/influxdb/influxdb.go\<close>)\<close>

definition defaultBatchWatermark :: "32 word" where
  "defaultBatchWatermark = 128"

text \<open>The capacity \<^verbatim>\<open>Init\<close> gives the send channel: \<^verbatim>\<open>make(chan influx.BatchPoints, 64)\<close>.\<close>

definition sendChanCap :: nat where
  "sendChanCap = 64"

text \<open>
  \<^verbatim>\<open>sinks.AcctSinkConfig\<close> and \<^verbatim>\<open>sinks.AcctSinkStats\<close> are declared outside the files at
  hand; their fields are read off their uses. \<^verbatim>\<open>BatchWatermark\<close> is compared with 0
  and converted with \<^verbatim>\<open>int(...)\<close> as \<^verbatim>\<open>UDPPayloadSize\<close> is: an unsigned field, taken
  as 32 bits wide, which \<^verbatim>\<open>int\<close> (64 bits) holds without loss.
\<close>

record AcctSinkConfig =
  Name :: string
  Addr :: string
  UDPPayloadSize :: "16 word"
  BatchWatermark :: "32 word"
  EnableSrcPort :: bool

record AcctSinkStats =
  BatchLength :: nat
  EventsPushed :: "64 word"

text \<open>
  The data point \<^verbatim>\<open>Push\<close> builds: its tags and fields are functions of the event and
  of \<^verbatim>\<open>EnableSrcPort\<close>, its time is the boot time plus the event's timestamp.
  \<^verbatim>\<open>influx.NewPoint\<close> refuses only a point without fields, so the panic after it is
  never reached.
\<close>

datatype 'e point = Point 'e bool int

text \<open>
  \<^verbatim>\<open>type InfluxAcctSink struct\<close>. The client handle is the configuration it was made
  with; the send channel is nil or holds its buffered batches; the batch is nil (the
  interface's zero value) or holds its points.
\<close>

record 'e InfluxAcctSink =
  sinkName :: string
  sinkInit :: bool
  config :: AcctSinkConfig
  bootTime :: int
  client :: "(string \<times> nat) option"
  sendChan :: "'e point list list option"
  batch :: "'e point list option"
  acctStats :: AcctSinkStats

definition Influx_New :: "'e InfluxAcctSink" where
  "Influx_New =
     \<lparr>sinkName = [], sinkInit = False,
      config = \<lparr>Name = [], Addr = [], UDPPayloadSize = 0, BatchWatermark = 0, EnableSrcPort = False\<rparr>,
      bootTime = 0, client = None, sendChan = None, batch = None,
      acctStats = \<lparr>BatchLength = 0, EventsPushed = 0\<rparr>\<rparr>"

text \<open>
  Modelled from the spec: \<^verbatim>\<open>newBatch\<close>, which is outside the files at hand. The spec
  has a fresh batch installed when a batch is handed off.
\<close>

definition newBatch :: "'e InfluxAcctSink \<Rightarrow> 'e InfluxAcctSink" where
  "newBatch s = s\<lparr>batch := Some []\<rparr>"

text \<open>
  \<^verbatim>\<open>Init\<close>. \<open>NewUDPClient\<close> is what \<^verbatim>\<open>influx.NewUDPClient\<close> answers for an address and
  a payload size (\<open>None\<close>: a client), \<open>bootEstimate\<close> what \<^verbatim>\<open>boottime.Estimate()\<close>
  returns. The send and tick workers it launches are outside the files at hand.
\<close>

definition Influx_Init ::
  "(string \<Rightarrow> nat \<Rightarrow> error option) \<Rightarrow> int \<Rightarrow> AcctSinkConfig \<Rightarrow> 'e InfluxAcctSink
     \<Rightarrow> error option \<times> 'e InfluxAcctSink" where
  "Influx_Init NewUDPClient bootEstimate sc s =
     (if Name sc = [] then (Some errSinkName, s)
      else
        case NewUDPClient (Addr sc) (unat (UDPPayloadSize sc)) of
          Some err \<Rightarrow> (Some err, s)
        | None \<Rightarrow>
            (let sc' = (if BatchWatermark sc = 0
                        then sc\<lparr>BatchWatermark := defaultBatchWatermark\<rparr> else sc);
                 s1 = s\<lparr>bootTime := bootEstimate\<rparr>;
                 s2 = s1\<lparr>sendChan := Some []\<rparr>;
                 s3 = newBatch s2;
                 s4 = s3\<lparr>sinkName := Name sc',
                         client := Some (Addr sc, unat (UDPPayloadSize sc)),
                         config := sc'\<rparr>
             in (None, s4\<lparr>sinkInit := True\<rparr>)))"

text \<open>
  How a call of \<^verbatim>\<open>Push\<close> ends: it returns, it panics (the batch is nil: \<^verbatim>\<open>Init\<close> never
  ran), or it waits in \<^verbatim>\<open>s.sendChan <- s.batch\<close> because the send channel is full (or
  nil) and returns only once the send worker has taken a batch from it.
\<close>

datatype 'a push_outcome = PushReturns 'a | PushPanics | PushBlocks

definition Influx_Push :: "'e \<Rightarrow> 'e InfluxAcctSink \<Rightarrow> 'e InfluxAcctSink push_outcome" where
  "Influx_Push e s =
     (let pt = Point e (EnableSrcPort (config s)) (bootTime s) in
      case batch s of
        None \<Rightarrow> PushPanics
      | Some b \<Rightarrow>
          (let b' = b @ [pt];
               batchLen = length b';
               s1 = s\<lparr>batch := Some b',
                       acctStats := (acctStats s)\<lparr>BatchLength := batchLen,
                         EventsPushed := EventsPushed (acctStats s) + 1\<rparr>\<rparr>
           in if int batchLen \<ge> uint (BatchWatermark (config s)) then
                (case sendChan s1 of
                   None \<Rightarrow> PushBlocks
                 | Some q \<Rightarrow>
                     if length q < sendChanCap
                     then PushReturns (newBatch (s1\<lparr>sendChan := Some (q @ [b'])\<rparr>))
                     else PushBlocks)
              else PushReturns s1))"

definition Influx_IsInit :: "'e InfluxAcctSink \<Rightarrow> bool" where
  "Influx_IsInit s = sinkInit s"

definition Influx_WantUpdate :: "'e InfluxAcctSink \<Rightarrow> bool" where
  "Influx_WantUpdate s = True"

definition Influx_WantDestroy :: "'e InfluxAcctSink \<Rightarrow> bool" where
  "Influx_WantDestroy s = True"

text \<open>
  An initialized sink between two calls: batch and send channel are there, the batch
  is shorter than the watermark, and the send channel holds no more than its capacity.
\<close>

definition batching_inv :: "'e InfluxAcctSink \<Rightarrow> bool" where
  "batching_inv s =
     (case batch s of
        None \<Rightarrow> False
      | Some b \<Rightarrow>
          (case sendChan s of
             None \<Rightarrow> False
           | Some q \<Rightarrow>
               int (length b) < uint (BatchWatermark (config s)) \<and> length q \<le> sendChanCap))"

section \<open>Concrete states for the examples\<close>

definition ex_update_consumer :: "pipeline_chan Consumer" where
  "ex_update_consumer = NewConsumer ''AcctUpdate'' RefUpdateChan ConsumerUpdate"

definition ex_destroy_consumer :: "pipeline_chan Consumer" where
  "ex_destroy_consumer = NewConsumer ''AcctDestroy'' RefDestroyChan ConsumerDestroy"

definition ex_probe1 :: "pipeline_chan Probe" where
  "ex_probe1 = \<lparr>consumers = \<lparr>elems = [Some ex_update_consumer], spare = []\<rparr>, started = False\<rparr>"

definition ex_probe2 :: "pipeline_chan Probe" where
  "ex_probe2 =
     \<lparr>consumers = \<lparr>elems = [Some ex_update_consumer, Some ex_destroy_consumer], spare = []\<rparr>,
      started = False\<rparr>"

definition ex_grow :: "nat \<Rightarrow> nat" where
  "ex_grow n = 2 * n"

definition ex_sinks :: "nat sink_store" where
  "ex_sinks r =
     (if r = 0 then \<lparr>sName = ''A'', sIsInit = True, sWantUpdate = True, sWantDestroy = False, pushed = []\<rparr>
      else if r = 1 then \<lparr>sName = ''B'', sIsInit = True, sWantUpdate = True, sWantDestroy = True, pushed = []\<rparr>
      else \<lparr>sName = ''C'', sIsInit = False, sWantUpdate = False, sWantDestroy = False, pushed = []\<rparr>)"

definition ex_pipeline :: "nat Pipeline" where
  "ex_pipeline = New\<lparr>init := True, acctProbe := Some ex_probe2,
     acctUpdateChan := Some [], acctDestroyChan := Some [], acctSinks := [0, 1]\<rparr>"

definition ex_failing_start :: "pipeline_chan Probe \<Rightarrow> error option \<times> pipeline_chan Probe" where
  "ex_failing_start ap = (Some (External ''perf map''), ap)"

definition ex_config :: AcctSinkConfig where
  "ex_config = \<lparr>Name = ''influx'', Addr = ''localhost:8089'', UDPPayloadSize = 512,
     BatchWatermark = 0, EnableSrcPort = False\<rparr>"

definition ex_client :: "string \<Rightarrow> nat \<Rightarrow> error option" where
  "ex_client addr payload = None"

definition ex_influx :: "nat InfluxAcctSink" where
  "ex_influx = (Influx_New :: nat InfluxAcctSink)
     \<lparr>sinkName := ''influx'', sinkInit := True,
      config := ex_config\<lparr>BatchWatermark := 2\<rparr>,
      sendChan := Some [], batch := Some [Point 5 False 0]\<rparr>"

lemma name_index_no_panic:
  "None \<notin> set cs \<Longrightarrow> name_index nm cs k \<noteq> Panics"
  by (induction nm cs k rule: name_index.induct) auto

lemma name_index_None:
  "None \<notin> set cs \<Longrightarrow>
     (name_index nm cs k = Returns None) = (nm \<notin> set (map (\<lambda>c. name (the c)) cs))"
  by (induction nm cs k rule: name_index.induct) auto

lemma name_index_Some:
  "name_index nm cs k = Returns (Some i) \<Longrightarrow>
     k \<le> i \<and> i - k < length cs \<and> (\<exists>c. cs ! (i - k) = Some c \<and> name c = nm)"
proof (induction nm cs k rule: name_index.induct)
  case (3 nm c cs i')
  then show ?case by (auto split: if_splits simp: nth_Cons' Suc_diff_le)
qed auto

lemma name_index_cases:
  assumes "None \<notin> set cs"
  obtains "name_index nm cs 0 = Returns None" "nm \<notin> set (map (\<lambda>c. name (the c)) cs)"
  | i c where "name_index nm cs 0 = Returns (Some i)" "i < length cs" "cs ! i = Some c" "name c = nm"
proof (cases "name_index nm cs 0")
  case (Returns r)
  show ?thesis
  proof (cases r)
    case None
    with Returns assms that(1) show ?thesis by (simp add: name_index_None)
  next
    case (Some i)
    with Returns name_index_Some[of nm cs 0 i] that(2) show ?thesis by auto
  qed
next
  case Panics
  with assms show ?thesis by (simp add: name_index_no_panic)
qed

lemma swap_remove_mset:
  assumes "i < length cs"
  shows "mset (take (length cs - 1) (cs[i := cs ! (length cs - 1), length cs - 1 := v]))
           = mset cs - {#cs ! i#}"
proof (cases cs rule: rev_cases)
  case Nil
  with assms show ?thesis by simp
next
  case (snoc ys y)
  show ?thesis
  proof (cases "i < length ys")
    case True
    then show ?thesis using snoc
      by (simp add: nth_append list_update_append mset_update)
  next
    case False
    with assms snoc have "i = length ys" by simp
    then show ?thesis using snoc by (simp add: nth_append list_update_append)
  qed
qed

lemma swap_remove_spare:
  assumes "i < length cs"
  shows "drop (length cs - 1) (cs[i := cs ! (length cs - 1), length cs - 1 := v]) = [v]"
proof (cases cs rule: rev_cases)
  case Nil
  with assms show ?thesis by simp
next
  case (snoc ys y)
  show ?thesis
  proof (cases "i < length ys")
    case True
    then show ?thesis using snoc by (simp add: list_update_append)
  next
    case False
    with assms snoc have "i = length ys" by simp
    then show ?thesis using snoc by (simp add: list_update_append)
  qed
qed

lemma removed_names:
  assumes d: "distinct (map f cs)" and i: "i < length cs"
    and m: "mset ys = mset cs - {#cs ! i#}"
  shows "distinct (map f ys) \<and> f (cs ! i) \<notin> set (map f ys) \<and> set ys \<subseteq> set cs"
proof -
  let ?r = "remove1 (cs ! i) cs"
  from d have dc: "distinct cs" and inj: "inj_on f (set cs)"
    by (simp_all add: distinct_map)
  from m have my: "mset ys = mset ?r" by simp
  then have sy: "set ys = set ?r" by (rule mset_eq_setD)
  have sr: "set ?r = set cs - {cs ! i}" using dc by simp
  have "distinct ?r" using dc by simp
  then have dy: "distinct ys" using my mset_eq_imp_distinct_iff by blast
  have injy: "inj_on f (set ys)" using inj sy sr by (auto intro: inj_on_subset)
  have "f (cs ! i) \<notin> f ` set ys"
  proof
    assume "f (cs ! i) \<in> f ` set ys"
    then obtain y where y: "y \<in> set ys" "f y = f (cs ! i)" by auto
    with sy sr have "y \<in> set cs" "y \<noteq> cs ! i" by auto
    moreover have "cs ! i \<in> set cs" using i by simp
    ultimately show False using inj y(2) by (auto dest: inj_onD)
  qed
  then show ?thesis using dy injy sy sr by (auto simp: distinct_map)
qed

lemma and_update_bit: "((m::8 word) AND 1 > 0) = bit m 0"
  by (simp add: word_gt_0 and_one_eq bit_0 mod_2_eq_odd) 

lemma and_destroy_bit: "((m::8 word) AND 2 > 0) = bit m 1"
  using and_exp_eq_0_iff_not_bit[of m 1] by (simp add: word_gt_0)

text \<open>
  Claim C9. A consumer built by \<^verbatim>\<open>NewConsumer\<close> with mode 0 wants update events and
  wants destroy events, whatever its name and channel. Built with a mode other than 0,
  it wants update events exactly when bit 0 (\<^verbatim>\<open>ConsumerUpdate\<close>) of the mode is set and
  destroy events exactly when bit 1 (\<^verbatim>\<open>ConsumerDestroy\<close>) is set.
\<close>

theorem NewConsumer_zero_means_all:
  "WantUpdate (NewConsumer nm ch 0) \<and> WantDestroy (NewConsumer nm ch 0) \<and>
   (md \<noteq> 0 \<longrightarrow>
      WantUpdate (NewConsumer nm ch md) = bit md 0 \<and>
      WantDestroy (NewConsumer nm ch md) = bit md 1)"
  by (simp add: WantUpdate_def WantDestroy_def NewConsumer_def ConsumerAll_def
      ConsumerUpdate_def ConsumerDestroy_def and_update_bit and_destroy_bit)

theorem NewConsumer_zero_means_all_witness:
  "(2 :: ConsumerMode) \<noteq> 0 \<and>
   \<not> WantUpdate (NewConsumer ''AcctDestroy'' (1::nat) 2) \<and>
   WantDestroy (NewConsumer ''AcctDestroy'' (1::nat) 2)"
  using NewConsumer_zero_means_all [of "''AcctDestroy''" "1::nat" 2] by simp

lemma registry_inv_nil: "registry_inv \<lparr>consumers = nil_slice, started = b\<rparr>"
  by (simp add: registry_inv_def nil_slice_def)

lemma registry_names:
  assumes "None \<notin> set cs"
  shows "(nm \<in> set (map (\<lambda>c. name (the c)) cs)) = (\<exists>c'. Some c' \<in> set cs \<and> name c' = nm)"
  using assms
proof (induction cs)
  case Nil
  show ?case by simp
next
  case (Cons a cs)
  from Cons.prems obtain c where a: "a = Some c" by (cases a) simp_all
  from Cons.prems have "None \<notin> set cs" by simp
  from Cons.IH [OF this] show ?case unfolding a by auto
qed

text \<open>
  Claim C5. On a probe whose registry satisfies \<open>registry_inv\<close> (every registry built
  by the exported operations does, see \<open>registry_inv_nil\<close> and the last conjunct here
  and in the theorem on removal): \<^verbatim>\<open>RegisterConsumer(nil)\<close> returns \<^verbatim>\<open>errConsumerNil\<close>;
  when a registered consumer already has the name of \<open>c\<close>, it returns
  \<^verbatim>\<open>errDupConsumer\<close> and the probe, with the earlier consumer, is unchanged; otherwise
  it returns nil and the consumer list is the old one with \<open>c\<close> appended, nothing
  else of the probe changed.
\<close>

theorem RegisterConsumer_error_contract:
  assumes inv: "registry_inv ap"
  shows "RegisterConsumer grow None ap = Returns (Some errConsumerNil, ap) \<and>
    ((\<exists>c'. Some c' \<in> set (elems (consumers ap)) \<and> name c' = name c) \<longrightarrow>
        RegisterConsumer grow (Some c) ap = Returns (Some errDupConsumer, ap)) \<and>
    ((\<forall>c'. Some c' \<in> set (elems (consumers ap)) \<longrightarrow> name c' \<noteq> name c) \<longrightarrow>
        (\<exists>ap'. RegisterConsumer grow (Some c) ap = Returns (None, ap') \<and>
               elems (consumers ap') = elems (consumers ap) @ [Some c] \<and>
               started ap' = started ap \<and> registry_inv ap'))"
proof -
  let ?cs = "elems (consumers ap)"
  let ?dup = "\<exists>c'. Some c' \<in> set ?cs \<and> name c' = name c"
  from inv have nn: "None \<notin> set ?cs" and d: "distinct (map (\<lambda>c. name (the c)) ?cs)"
    by (simp_all add: registry_inv_def)
  have A: "RegisterConsumer grow None ap = Returns (Some errConsumerNil, ap)"
    by (simp add: RegisterConsumer_def)
  have dup_iff: "?dup = (name c \<in> set (map (\<lambda>c. name (the c)) ?cs))"
    using registry_names [OF nn, of "name c"] by simp
  from nn have "(?dup \<longrightarrow> RegisterConsumer grow (Some c) ap = Returns (Some errDupConsumer, ap)) \<and>
    (\<not> ?dup \<longrightarrow>
        (\<exists>ap'. RegisterConsumer grow (Some c) ap = Returns (None, ap') \<and>
               elems (consumers ap') = ?cs @ [Some c] \<and>
               started ap' = started ap \<and> registry_inv ap'))"
  proof (cases rule: name_index_cases [where nm = "name c"])
    case 1
    define ap' where "ap' = ap\<lparr>consumers := append_slice grow (consumers ap) (Some c)\<rparr>"
    have el: "elems (consumers ap') = ?cs @ [Some c]"
      by (simp add: ap'_def append_slice_def Let_def split: list.splits)
    have inv': "registry_inv ap'"
      using nn d 1(2) el by (simp add: registry_inv_def)
    have st: "started ap' = started ap" by (simp add: ap'_def)
    have "RegisterConsumer grow (Some c) ap = Returns (None, ap')"
      using 1(1) by (simp add: RegisterConsumer_def ap'_def)
    with el inv' st have
      "\<exists>ap'. RegisterConsumer grow (Some c) ap = Returns (None, ap') \<and>
             elems (consumers ap') = ?cs @ [Some c] \<and>
             started ap' = started ap \<and> registry_inv ap'"
      by blast
    moreover have "\<not> ?dup" using 1(2) dup_iff by simp
    ultimately show ?thesis by blast
  next
    case (2 i c')
    have "RegisterConsumer grow (Some c) ap = Returns (Some errDupConsumer, ap)"
      using 2(1) by (simp add: RegisterConsumer_def)
    moreover have "?dup" using 2(2,3,4) by (metis nth_mem)
    ultimately show ?thesis by blast
  qed
  with A show ?thesis by simp
qed

theorem RegisterConsumer_error_contract_witness:
  "registry_inv ex_probe1 \<and>
   RegisterConsumer ex_grow None ex_probe1 = Returns (Some errConsumerNil, ex_probe1) \<and>
   RegisterConsumer ex_grow (Some ex_update_consumer) ex_probe1
     = Returns (Some errDupConsumer, ex_probe1) \<and>
   (\<exists>ap'. RegisterConsumer ex_grow (Some ex_destroy_consumer) ex_probe1 = Returns (None, ap') \<and>
          elems (consumers ap') = [Some ex_update_consumer, Some ex_destroy_consumer])"
proof -
  have inv: "registry_inv ex_probe1"
    by (simp add: registry_inv_def ex_probe1_def)
  have dup: "\<exists>c'. Some c' \<in> set (elems (consumers ex_probe1)) \<and> name c' = name ex_update_consumer"
    by (simp add: ex_probe1_def)
  have fresh: "\<forall>c'. Some c' \<in> set (elems (consumers ex_probe1)) \<longrightarrow> name c' \<noteq> name ex_destroy_consumer"
    by (simp add: ex_probe1_def ex_update_consumer_def ex_destroy_consumer_def NewConsumer_def)
  from RegisterConsumer_error_contract [OF inv, of ex_grow ex_update_consumer] dup
  have a: "RegisterConsumer ex_grow None ex_probe1 = Returns (Some errConsumerNil, ex_probe1)"
    and b: "RegisterConsumer ex_grow (Some ex_update_consumer) ex_probe1
              = Returns (Some errDupConsumer, ex_probe1)"
    by blast+
  from RegisterConsumer_error_contract [OF inv, of ex_grow ex_destroy_consumer] fresh
  obtain ap' where "RegisterConsumer ex_grow (Some ex_destroy_consumer) ex_probe1 = Returns (None, ap')"
    and "elems (consumers ap') = elems (consumers ex_probe1) @ [Some ex_destroy_consumer]"
    by blast
  then have c: "\<exists>ap'. RegisterConsumer ex_grow (Some ex_destroy_consumer) ex_probe1 = Returns (None, ap') \<and>
          elems (consumers ap') = [Some ex_update_consumer, Some ex_destroy_consumer]"
    by (auto simp: ex_probe1_def)
  from inv a b c show ?thesis by blast
qed

text \<open>
  Claim C6. On a probe whose registry satisfies \<open>registry_inv\<close>: when no registered
  consumer has the name of \<open>c\<close>, \<^verbatim>\<open>RemoveConsumer(c)\<close> returns \<^verbatim>\<open>errNoConsumer\<close> and the
  probe is unchanged; when one has, the removal succeeds; and after every successful
  removal \<^verbatim>\<open>GetConsumer\<close> of the name of \<open>c\<close> returns nil, the list is one shorter, and
  the slot it vacated in the backing array (the first spare slot) holds nil.
\<close>

theorem RemoveConsumer_roundtrip:
  assumes inv: "registry_inv ap"
  shows "((\<forall>c'. Some c' \<in> set (elems (consumers ap)) \<longrightarrow> name c' \<noteq> name c) \<longrightarrow>
            RemoveConsumer (Some c) ap = Returns (Some errNoConsumer, ap)) \<and>
         ((\<exists>c'. Some c' \<in> set (elems (consumers ap)) \<and> name c' = name c) \<longrightarrow>
            (\<exists>ap'. RemoveConsumer (Some c) ap = Returns (None, ap'))) \<and>
         (\<forall>ap'. RemoveConsumer (Some c) ap = Returns (None, ap') \<longrightarrow>
            GetConsumer (name c) ap' = Returns None \<and>
            Suc (length (elems (consumers ap'))) = length (elems (consumers ap)) \<and>
            spare (consumers ap') = None # spare (consumers ap) \<and>
            registry_inv ap')"
proof -
  let ?cs = "elems (consumers ap)"
  let ?f = "\<lambda>c. name (the c)"
  from inv have nn: "None \<notin> set ?cs" and d: "distinct (map ?f ?cs)"
    by (simp_all add: registry_inv_def)
  from nn show ?thesis
  proof (cases rule: name_index_cases [where nm = "name c"])
    case 1
    from 1(2) nn have "\<forall>c'. Some c' \<in> set ?cs \<longrightarrow> name c' \<noteq> name c"
      using registry_names [of ?cs "name c"] by blast
    with 1(1) show ?thesis by (simp add: RemoveConsumer_def)
  next
    case (2 i c')
    let ?n = "length ?cs"
    define e2 where "e2 = ?cs[i := ?cs ! (?n - 1), ?n - 1 := None]"
    define es where "es = take (?n - 1) e2"
    define ap' where
      "ap' = ap\<lparr>consumers := \<lparr>elems = es, spare = drop (?n - 1) e2 @ spare (consumers ap)\<rparr>\<rparr>"
    have rm: "RemoveConsumer (Some c) ap = Returns (None, ap')"
      using 2(1) by (simp add: RemoveConsumer_def Let_def ap'_def es_def e2_def)
    have ms: "mset es = mset ?cs - {#?cs ! i#}"
      unfolding es_def e2_def using 2(2) by (rule swap_remove_mset)
    from removed_names [OF d 2(2) ms]
    have dy: "distinct (map ?f es)" and ny: "name c \<notin> set (map ?f es)"
      and sub: "set es \<subseteq> set ?cs"
      using 2(3,4) by simp_all
    from sub nn have nn': "None \<notin> set es" by blast
    have "name_index (name c) es 0 = Returns None"
      using nn' ny name_index_None [of es "name c" 0] by simp
    then have get: "GetConsumer (name c) ap' = Returns None"
      by (simp add: GetConsumer_def ap'_def)
    have len: "Suc (length (elems (consumers ap'))) = ?n"
      using 2(2) by (simp add: ap'_def es_def e2_def)
    have "drop (?n - 1) e2 = [None]"
      unfolding e2_def using 2(2) by (rule swap_remove_spare)
    then have sp: "spare (consumers ap') = None # spare (consumers ap)"
      by (simp add: ap'_def)
    have inv': "registry_inv ap'" using nn' dy by (simp add: registry_inv_def ap'_def)
    have pres: "Some c' \<in> set ?cs" using 2(2,3) by (metis nth_mem)
    have A: "(\<forall>c'. Some c' \<in> set ?cs \<longrightarrow> name c' \<noteq> name c) \<longrightarrow>
               RemoveConsumer (Some c) ap = Returns (Some errNoConsumer, ap)"
      using pres 2(4) by blast
    have B: "(\<exists>c'. Some c' \<in> set ?cs \<and> name c' = name c) \<longrightarrow>
               (\<exists>ap'. RemoveConsumer (Some c) ap = Returns (None, ap'))"
      using rm by blast
    have C: "\<forall>x. RemoveConsumer (Some c) ap = Returns (None, x) \<longrightarrow>
               GetConsumer (name c) x = Returns None \<and>
               Suc (length (elems (consumers x))) = length ?cs \<and>
               spare (consumers x) = None # spare (consumers ap) \<and>
               registry_inv x"
    proof (intro allI impI)
      fix x
      assume "RemoveConsumer (Some c) ap = Returns (None, x)"
      with rm have "x = ap'" by simp
      with get len sp inv' show
        "GetConsumer (name c) x = Returns None \<and>
         Suc (length (elems (consumers x))) = length ?cs \<and>
         spare (consumers x) = None # spare (consumers ap) \<and>
         registry_inv x"
        by blast
    qed
    show ?thesis by (rule conjI [OF A conjI [OF B C]])
  qed
qed

theorem RemoveConsumer_roundtrip_witness:
  "registry_inv ex_probe2 \<and>
   RemoveConsumer (Some (NewConsumer ''Other'' RefUpdateChan 0)) ex_probe2
     = Returns (Some errNoConsumer, ex_probe2) \<and>
   (\<exists>ap'. RemoveConsumer (Some ex_update_consumer) ex_probe2 = Returns (None, ap') \<and>
          GetConsumer ''AcctUpdate'' ap' = Returns None \<and>
          length (elems (consumers ap')) = 1 \<and>
          spare (consumers ap') = [None])"
proof -
  let ?o = "NewConsumer ''Other'' RefUpdateChan 0 :: pipeline_chan Consumer"
  have inv: "registry_inv ex_probe2"
    by (simp add: registry_inv_def ex_probe2_def ex_update_consumer_def ex_destroy_consumer_def
        NewConsumer_def)
  have absent: "\<forall>c'. Some c' \<in> set (elems (consumers ex_probe2)) \<longrightarrow> name c' \<noteq> name ?o"
    by (simp add: ex_probe2_def ex_update_consumer_def ex_destroy_consumer_def NewConsumer_def)
  have present: "\<exists>c'. Some c' \<in> set (elems (consumers ex_probe2)) \<and> name c' = name ex_update_consumer"
    by (auto simp: ex_probe2_def)
  have nm: "name ex_update_consumer = ''AcctUpdate''"
    by (simp add: ex_update_consumer_def NewConsumer_def)
  from RemoveConsumer_roundtrip [OF inv, of ?o] absent
  have a: "RemoveConsumer (Some ?o) ex_probe2 = Returns (Some errNoConsumer, ex_probe2)"
    by blast
  from RemoveConsumer_roundtrip [OF inv, of ex_update_consumer] present
  obtain ap' where r: "RemoveConsumer (Some ex_update_consumer) ex_probe2 = Returns (None, ap')"
    by blast
  with RemoveConsumer_roundtrip [OF inv, of ex_update_consumer]
  have "GetConsumer (name ex_update_consumer) ap' = Returns None"
    and "Suc (length (elems (consumers ap'))) = length (elems (consumers ex_probe2))"
    and "spare (consumers ap') = None # spare (consumers ex_probe2)"
    by blast+
  then have "GetConsumer ''AcctUpdate'' ap' = Returns None \<and>
          length (elems (consumers ap')) = 1 \<and> spare (consumers ap') = [None]"
    by (simp add: nm ex_probe2_def)
  with r have c: "\<exists>ap'. RemoveConsumer (Some ex_update_consumer) ex_probe2 = Returns (None, ap') \<and>
          GetConsumer ''AcctUpdate'' ap' = Returns None \<and>
          length (elems (consumers ap')) = 1 \<and>
          spare (consumers ap') = [None]"
    by blast
  from inv a c show ?thesis by blast
qed

lemma updateStats_conserves:
  "stat_conservation L st \<Longrightarrow> stat_conservation L (updateStats L q st)"
  by (simp add: stat_conservation_def updateStats_def algebra_simps)

lemma destroyStats_conserves:
  "stat_conservation L st \<Longrightarrow> stat_conservation L (destroyStats L q st)"
  by (simp add: stat_conservation_def destroyStats_def algebra_simps)

lemma workerStep_conserves:
  "stat_conservation L (stats (fst ph)) \<Longrightarrow> stat_conservation L (stats (fst (workerStep L r ph)))"
  by (cases r; cases ph)
    (simp_all add: acctUpdateStep_def acctDestroyStep_def updateStats_conserves
      destroyStats_conserves)

lemma runWorkers_conserves:
  "stat_conservation L (stats (fst ph)) \<Longrightarrow> stat_conservation L (stats (fst (runWorkers L rs ph)))"
  by (induction rs arbitrary: ph) (simp_all add: workerStep_conserves)

lemma New_conserves: "stat_conservation L (stats New)"
  by (simp add: stat_conservation_def New_def zero_Stats_def)

lemma acctUpdateWorker_schedule:
  "acctUpdateWorker L evs ph = runWorkers L (map (\<lambda>(ae, q). FromUpdateChan ae q) evs) ph"
  by (induction L evs ph rule: acctUpdateWorker.induct) simp_all

lemma acctDestroyWorker_schedule:
  "acctDestroyWorker L evs ph = runWorkers L (map (\<lambda>(ae, q). FromDestroyChan ae q) evs) ph"
  by (induction L evs ph rule: acctDestroyWorker.induct) simp_all

text \<open>
  Claim C2. Stat conservation, \<^verbatim>\<open>EventsTotal = EventsUpdate + EventsDestroy\<close> and
  \<^verbatim>\<open>AcctBytesTotal = EventsTotal * EventLength\<close> (on 64-bit counters, which wrap),
  holds of the statistics of a new pipeline after any schedule of completed iterations
  of the update and the destroy worker, and each iteration of either worker preserves it.
\<close>

theorem stat_conservation_invariant:
  "stat_conservation L (stats (fst (runWorkers L rs (New, h)))) \<and>
   (stat_conservation L (stats p) \<longrightarrow>
      stat_conservation L (stats (fst (acctUpdateStep L ae q (p, h)))) \<and>
      stat_conservation L (stats (fst (acctDestroyStep L ae q (p, h)))))"
proof -
  have a: "stat_conservation L (stats (fst (runWorkers L rs (New, h))))"
    by (rule runWorkers_conserves) (simp add: New_conserves)
  have b: "stat_conservation L (stats p) \<Longrightarrow>
      stat_conservation L (stats (fst (acctUpdateStep L ae q (p, h))))"
    using workerStep_conserves [of L "(p, h)" "FromUpdateChan ae q"] by simp
  have c: "stat_conservation L (stats p) \<Longrightarrow>
      stat_conservation L (stats (fst (acctDestroyStep L ae q (p, h))))"
    using workerStep_conserves [of L "(p, h)" "FromDestroyChan ae q"] by simp
  from a b c show ?thesis by blast
qed

theorem stat_conservation_invariant_witness:
  "stat_conservation 92 (stats ex_pipeline) \<and>
   stat_conservation 92 (stats (fst (acctUpdateStep 92 (7::nat) 3 (ex_pipeline, ex_sinks)))) \<and>
   stat_conservation 92 (stats (fst (acctDestroyStep 92 (7::nat) 3 (ex_pipeline, ex_sinks)))) \<and>
   EventsTotal (stats (fst (acctUpdateStep 92 (7::nat) 3 (ex_pipeline, ex_sinks)))) = 1 \<and>
   AcctBytesTotal (stats (fst (acctUpdateStep 92 (7::nat) 3 (ex_pipeline, ex_sinks)))) = 92"
proof -
  have h: "stat_conservation 92 (stats ex_pipeline)"
    by (simp add: stat_conservation_def ex_pipeline_def New_def zero_Stats_def)
  have v: "EventsTotal (stats (fst (acctUpdateStep 92 (7::nat) 3 (ex_pipeline, ex_sinks)))) = 1 \<and>
   AcctBytesTotal (stats (fst (acctUpdateStep 92 (7::nat) 3 (ex_pipeline, ex_sinks)))) = 92"
    by (simp add: acctUpdateStep_def updateStats_def ex_pipeline_def New_def zero_Stats_def)
  from stat_conservation_invariant [of 92 "[]" ex_sinks ex_pipeline 7 3] h v
  show ?thesis by blast
qed

lemma Push_other: "sWantUpdate (Push ae s h r) = sWantUpdate (h r)"
  "sWantDestroy (Push ae s h r) = sWantDestroy (h r)"
  by (simp_all add: Push_def)

lemma Push_pushed:
  "pushed (Push ae s h r) = (if r = s then pushed (h r) @ [ae] else pushed (h r))"
  by (simp add: Push_def)

lemma fanoutUpdate_want: "sWantUpdate (fanoutUpdate ae ss h r) = sWantUpdate (h r)"
  by (induction ss arbitrary: h) (simp_all add: Push_other)

lemma fanoutUpdate_pushed:
  "pushed (fanoutUpdate ae ss h r) =
     pushed (h r) @ replicate (if sWantUpdate (h r) then count_list ss r else 0) ae"
proof (induction ss arbitrary: h)
  case Nil
  show ?case by simp
next
  case (Cons s ss)
  show ?case
    by (simp add: Cons.IH Push_other Push_pushed replicate_app_Cons_same)
qed

lemma fanoutDestroy_pushed:
  "pushed (fanoutDestroy ae ss h r) =
     pushed (h r) @ replicate (if sWantDestroy (h r) then count_list ss r else 0) ae"
proof (induction ss arbitrary: h)
  case Nil
  show ?case by simp
next
  case (Cons s ss)
  show ?case
    by (simp add: Cons.IH Push_other Push_pushed replicate_app_Cons_same)
qed

text \<open>
  Claim C3. In one iteration of a worker on the event \<open>ae\<close>, the calls \<^verbatim>\<open>Push(ae)\<close>
  a sink object \<open>r\<close> receives are: one for each time it stands in the sink list when
  its kind filter (\<^verbatim>\<open>WantUpdate()\<close> in the update worker, \<^verbatim>\<open>WantDestroy()\<close> in the
  destroy worker) answers true, and none when the filter answers false or the sink is
  not registered. Nothing else is pushed to it.
\<close>

theorem fanout_filtering:
  "pushed (snd (acctUpdateStep L ae q (p, h)) r) =
     pushed (h r) @ replicate (if sWantUpdate (h r) then count_list (acctSinks p) r else 0) ae \<and>
   pushed (snd (acctDestroyStep L ae q (p, h)) r) =
     pushed (h r) @ replicate (if sWantDestroy (h r) then count_list (acctSinks p) r else 0) ae"
  by (simp add: acctUpdateStep_def acctDestroyStep_def fanoutUpdate_pushed fanoutDestroy_pushed)

theorem fanout_filtering_witness:
  "pushed (snd (acctUpdateStep 92 (7::nat) 0 (ex_pipeline, ex_sinks)) 0) = [7] \<and>
   pushed (snd (acctUpdateStep 92 (7::nat) 0 (ex_pipeline, ex_sinks)) 1) = [7] \<and>
   pushed (snd (acctUpdateStep 92 (7::nat) 0 (ex_pipeline, ex_sinks)) 2) = [] \<and>
   pushed (snd (acctDestroyStep 92 (8::nat) 0 (ex_pipeline, ex_sinks)) 0) = [] \<and>
   pushed (snd (acctDestroyStep 92 (8::nat) 0 (ex_pipeline, ex_sinks)) 1) = [8]"
  using fanout_filtering [of 92 7 0 ex_pipeline ex_sinks 0]
    fanout_filtering [of 92 7 0 ex_pipeline ex_sinks 1]
    fanout_filtering [of 92 7 0 ex_pipeline ex_sinks 2]
    fanout_filtering [of 92 8 0 ex_pipeline ex_sinks 0]
    fanout_filtering [of 92 8 0 ex_pipeline ex_sinks 1]
  by (simp add: ex_pipeline_def ex_sinks_def)

text \<open>
  Claim C8. \<^verbatim>\<open>RegisterSink(s)\<close> returns \<^verbatim>\<open>errSinkNotInit\<close> and leaves the pipeline, with
  its sink list, unchanged when \<^verbatim>\<open>s.IsInit()\<close> is false; otherwise it returns nil and
  the sink list is the old one with \<open>s\<close> appended, nothing else changed.
\<close>

theorem RegisterSink_contract:
  "(\<not> sIsInit (h r) \<longrightarrow> RegisterSink (Some r) h p = Returns (Some errSinkNotInit, p)) \<and>
   (sIsInit (h r) \<longrightarrow>
      RegisterSink (Some r) h p = Returns (None, p\<lparr>acctSinks := acctSinks p @ [r]\<rparr>))"
  by (simp add: RegisterSink_def)

theorem RegisterSink_contract_witness:
  "\<not> sIsInit (ex_sinks 2) \<and> sIsInit (ex_sinks 1) \<and>
   RegisterSink (Some 2) ex_sinks ex_pipeline = Returns (Some errSinkNotInit, ex_pipeline) \<and>
   (\<exists>p'. RegisterSink (Some 1) ex_sinks ex_pipeline = Returns (None, p') \<and> GetSinks p' = [0, 1, 1])"
proof -
  have a: "\<not> sIsInit (ex_sinks 2)" and b: "sIsInit (ex_sinks 1)"
    by (simp_all add: ex_sinks_def)
  from RegisterSink_contract [of ex_sinks 2 ex_pipeline] a
  have c: "RegisterSink (Some 2) ex_sinks ex_pipeline = Returns (Some errSinkNotInit, ex_pipeline)"
    by blast
  from RegisterSink_contract [of ex_sinks 1 ex_pipeline] b
  have "RegisterSink (Some 1) ex_sinks ex_pipeline
          = Returns (None, ex_pipeline\<lparr>acctSinks := acctSinks ex_pipeline @ [1]\<rparr>)"
    by blast
  moreover have "GetSinks (ex_pipeline\<lparr>acctSinks := acctSinks ex_pipeline @ [1]\<rparr>) = [0, 1, 1]"
    by (simp add: GetSinks_def ex_pipeline_def)
  ultimately have d: "\<exists>p'. RegisterSink (Some 1) ex_sinks ex_pipeline = Returns (None, p') \<and>
      GetSinks p' = [0, 1, 1]"
    by blast
  from a b c d show ?thesis by blast
qed

lemma startAcct_closes_gate:
  "startAcct ps p = Returns (e, p') \<Longrightarrow> start p' = start p \<and> acctProbe p' \<noteq> None"
  by (auto simp: startAcct_def Let_def split: option.splits prod.splits)

text \<open>
  Claim C10. On an initialized pipeline whose start gate is still open, if \<^verbatim>\<open>Start\<close>
  returns an error (the probe failed to start), then the next call of \<^verbatim>\<open>Start\<close>
  returns nil and leaves the pipeline exactly as it was, whatever the probe would
  answer now: neither the probe nor the workers are started again. As the state is
  unchanged, the same holds of every later call.
\<close>

theorem Start_failed_consumes_gate:
  "acctProbe p \<noteq> None \<Longrightarrow> \<not> start p \<Longrightarrow> Start ProbeStart p = Returns (Some err, p')
     \<Longrightarrow> Start ProbeStart' p' = Returns (None, p')"
proof -
  assume a: "acctProbe p \<noteq> None" and b: "\<not> start p"
    and c: "Start ProbeStart p = Returns (Some err, p')"
  from a b c have "startAcct ProbeStart (p\<lparr>start := True\<rparr>) = Returns (Some err, p')"
    by (auto simp: Start_def)
  from startAcct_closes_gate [OF this] have "start p'" "acctProbe p' \<noteq> None" by simp_all
  then show ?thesis by (simp add: Start_def)
qed

theorem Start_failed_consumes_gate_witness:
  "acctProbe ex_pipeline \<noteq> None \<and> \<not> start ex_pipeline \<and>
   Start ex_failing_start ex_pipeline =
     Returns (Some (Wrap (External ''perf map'') ''starting Probe''),
              ex_pipeline\<lparr>start := True, workers := 2\<rparr>) \<and>
   Start (\<lambda>ap. (None, ap)) (ex_pipeline\<lparr>start := True, workers := 2\<rparr>) =
     Returns (None, ex_pipeline\<lparr>start := True, workers := 2\<rparr>)"
proof -
  have a: "acctProbe ex_pipeline \<noteq> None" and b: "\<not> start ex_pipeline"
    by (simp_all add: ex_pipeline_def New_def)
  have c: "Start ex_failing_start ex_pipeline =
     Returns (Some (Wrap (External ''perf map'') ''starting Probe''),
              ex_pipeline\<lparr>start := True, workers := 2\<rparr>)"
    by (simp add: Start_def startAcct_def ex_failing_start_def ex_pipeline_def New_def)
  from Start_failed_consumes_gate [OF a b c, of "\<lambda>ap. (None, ap)"] a b c
  show ?thesis by simp
qed

text \<open>
  Claim C1 says that \<^verbatim>\<open>Stop\<close> returns a not-running error in every state. On the
  code it does not: on a pipeline fresh from \<^verbatim>\<open>New\<close>, and on one whose \<^verbatim>\<open>Init\<close>
  failed, the probe is nil and \<^verbatim>\<open>Stop\<close> panics, where \<^verbatim>\<open>Start\<close> checks for the nil
  probe and returns an error. Once the probe is there and not running, \<^verbatim>\<open>Stop\<close>
  returns \<^verbatim>\<open>errProbeNotStarted\<close>.
\<close>

theorem Stop_faults_before_Init:
  "Stop (New :: nat Pipeline) = Panics \<and>
   Init ex_grow (\<lambda>cfg. Inl (External ''load'')) (New :: nat Pipeline) =
     Returns (Some (Wrap (External ''load'') ''initializing BPF probe''), New\<lparr>init := True\<rparr>) \<and>
   Stop (New\<lparr>init := True\<rparr> :: nat Pipeline) = Panics \<and>
   Start ex_failing_start (New :: nat Pipeline) = Returns (Some errAcctNotInitialized, New) \<and>
   Stop ex_pipeline = Returns (Some errProbeNotStarted, ex_pipeline)"
  by (simp add: Stop_def Probe_Stop_def New_def Init_def initAcct_def Start_def
      ex_pipeline_def ex_probe2_def)

text \<open>
  Claim C4. For every flow key \<open>K\<close>: an Update at timestamp \<open>T\<close> is dropped, and the
  table left alone, if \<open>last[K]\<close> exists and \<open>T - last[K] < cooldown_ms\<close>; otherwise it
  is delivered and \<open>last[K]\<close> becomes \<open>T\<close>. A Destroy is always delivered and removes
  \<open>last[K]\<close>. The cooldown \<^verbatim>\<open>initAcct\<close> configures is 2000.
\<close>

theorem cooldown_filter_rules:
  "cooldown_filter cooldown_ms Update K T lastT =
     (if (\<exists>t. lastT K = Some t \<and> T - t < cooldown_ms) then (Drop, lastT)
      else (Deliver, lastT(K \<mapsto> T))) \<and>
   cooldown_filter cooldown_ms Destroy K T lastT = (Deliver, lastT(K := None)) \<and>
   CooldownMillis initAcct_cfg = 2000"
  by (auto simp: cooldown_filter_def initAcct_cfg_def split: option.splits)

theorem cooldown_filter_rules_witness:
  "fst (cooldown_filter 2000 Update (1, 7) 500 [(1, 7) \<mapsto> 0]) = Drop \<and>
   fst (cooldown_filter 2000 Update (1, 7) 2100 [(1, 7) \<mapsto> 0]) = Deliver \<and>
   snd (cooldown_filter 2000 Update (1, 7) 2100 [(1, 7) \<mapsto> 0]) (1, 7) = Some 2100 \<and>
   fst (cooldown_filter 2000 Destroy (1, 7) 10 [(1, 7) \<mapsto> 0]) = Deliver \<and>
   snd (cooldown_filter 2000 Destroy (1, 7) 10 [(1, 7) \<mapsto> 0]) (1, 7) = None"
  using cooldown_filter_rules [of 2000 "(1, 7)" 500 "[(1, 7) \<mapsto> 0]"]
    cooldown_filter_rules [of 2000 "(1, 7)" 2100 "[(1, 7) \<mapsto> 0]"]
    cooldown_filter_rules [of 2000 "(1, 7)" 10 "[(1, 7) \<mapsto> 0]"]
  by simp

lemma Influx_Push_below:
  assumes b: "batch s = Some b"
    and lo: "int (length b) + 1 < uint (BatchWatermark (config s))"
  shows "Influx_Push e s =
     PushReturns (s\<lparr>batch := Some (b @ [Point e (EnableSrcPort (config s)) (bootTime s)]),
        acctStats := (acctStats s)\<lparr>BatchLength := length b + 1,
                       EventsPushed := EventsPushed (acctStats s) + 1\<rparr>\<rparr>)"
  using b lo by (simp add: Influx_Push_def Let_def)

lemma Influx_Push_flush:
  assumes b: "batch s = Some b" and q: "sendChan s = Some q"
    and hi: "uint (BatchWatermark (config s)) \<le> int (length b) + 1"
    and room: "length q < sendChanCap"
  shows "Influx_Push e s =
     PushReturns (s\<lparr>batch := Some [],
        acctStats := (acctStats s)\<lparr>BatchLength := length b + 1,
                       EventsPushed := EventsPushed (acctStats s) + 1\<rparr>,
        sendChan := Some (q @ [b @ [Point e (EnableSrcPort (config s)) (bootTime s)]])\<rparr>)"
  using b q hi room by (simp add: Influx_Push_def Let_def newBatch_def)

lemma Influx_Push_full:
  assumes b: "batch s = Some b" and q: "sendChan s = Some q"
    and hi: "uint (BatchWatermark (config s)) \<le> int (length b) + 1"
    and full: "sendChanCap \<le> length q"
  shows "Influx_Push e s = PushBlocks"
  using b q hi full by (simp add: Influx_Push_def Let_def)

lemma Influx_Push_inv:
  assumes inv: "batching_inv s" and r: "Influx_Push e s = PushReturns s'"
  shows "batching_inv s' \<and> config s' = config s \<and>
         EventsPushed (acctStats s') = EventsPushed (acctStats s) + 1"
proof -
  from inv obtain b q where b: "batch s = Some b" and q: "sendChan s = Some q"
    and lt: "int (length b) < uint (BatchWatermark (config s))" and cap: "length q \<le> sendChanCap"
    by (auto simp: batching_inv_def split: option.splits)
  show ?thesis
  proof (cases "int (length b) + 1 < uint (BatchWatermark (config s))")
    case True
    from Influx_Push_below [OF b True, of e] r True q cap show ?thesis
      by (auto simp: batching_inv_def)
  next
    case False
    then have hi: "uint (BatchWatermark (config s)) \<le> int (length b) + 1" by simp
    show ?thesis
    proof (cases "length q < sendChanCap")
      case True
      from Influx_Push_flush [OF b q hi True, of e] r lt True show ?thesis
        by (auto simp: batching_inv_def)
    next
      case False
      then have "sendChanCap \<le> length q" by simp
      from Influx_Push_full [OF b q hi this, of e] r show ?thesis by simp
    qed
  qed
qed

lemma Influx_Init_inv:
  assumes "Influx_Init cl bt sc s = (None, s')"
  shows "batching_inv s' \<and> sinkInit s' \<and> batch s' = Some [] \<and> sendChan s' = Some [] \<and>
         BatchWatermark (config s') =
           (if BatchWatermark sc = 0 then defaultBatchWatermark else BatchWatermark sc)"
proof -
  from assms have n: "Name sc \<noteq> []" and c: "cl (Addr sc) (unat (UDPPayloadSize sc)) = None"
    by (auto simp: Influx_Init_def split: if_splits option.splits)
  have pos: "BatchWatermark sc \<noteq> 0 \<Longrightarrow> 0 < uint (BatchWatermark sc)"
    by (simp add: word_neq_0_conv word_less_def)
  show ?thesis
  proof (cases "BatchWatermark sc = 0")
    case True
    with assms n c show ?thesis
      by (auto simp: Influx_Init_def Let_def newBatch_def batching_inv_def
          defaultBatchWatermark_def)
  next
    case False
    with assms n c pos show ?thesis
      by (auto simp: Influx_Init_def Let_def newBatch_def batching_inv_def)
  qed
qed


text \<open>
  Claim C7. \<^verbatim>\<open>Init\<close> of the InfluxDB sink, when it succeeds, leaves an empty batch, an
  empty send channel of capacity 64 and the configured watermark, 128 when it was
  configured as 0. On a sink in that condition (\<open>batching_inv\<close>), \<^verbatim>\<open>Push\<close> appends
  exactly one point to the batch; when the batch length stays below the watermark it
  returns with that batch; when it reaches the watermark the full batch is appended to
  the send channel and an empty batch installed, provided the channel has room, and
  otherwise \<^verbatim>\<open>Push\<close> waits for room. Whenever \<^verbatim>\<open>Push\<close> returns, one more event is
  counted as pushed and the batch is again shorter than the watermark.
\<close>

theorem Influx_batching_watermark:
  "(Influx_Init NewUDPClient bootEstimate sc s0 = (None, (s1 :: 'e InfluxAcctSink)) \<longrightarrow>
      batching_inv s1 \<and> batch s1 = Some [] \<and> sendChan s1 = Some [] \<and>
      BatchWatermark (config s1) = (if BatchWatermark sc = 0 then 128 else BatchWatermark sc)) \<and>
   sendChanCap = 64 \<and>
   (batching_inv (s :: 'e InfluxAcctSink) \<longrightarrow>
      (\<exists>b q. batch s = Some b \<and> sendChan s = Some q \<and>
         (int (length b) + 1 < uint (BatchWatermark (config s)) \<longrightarrow>
            (\<exists>s'. Influx_Push e s = PushReturns s' \<and>
                  batch s' = Some (b @ [Point e (EnableSrcPort (config s)) (bootTime s)]) \<and>
                  sendChan s' = Some q)) \<and>
         (uint (BatchWatermark (config s)) \<le> int (length b) + 1 \<and> length q < sendChanCap \<longrightarrow>
            (\<exists>s'. Influx_Push e s = PushReturns s' \<and>
                  batch s' = Some [] \<and>
                  sendChan s' =
                    Some (q @ [b @ [Point e (EnableSrcPort (config s)) (bootTime s)]]))) \<and>
         (uint (BatchWatermark (config s)) \<le> int (length b) + 1 \<and> sendChanCap \<le> length q \<longrightarrow>
            Influx_Push e s = PushBlocks)) \<and>
      (\<forall>s'. Influx_Push e s = PushReturns s' \<longrightarrow>
         batching_inv s' \<and> config s' = config s \<and>
         EventsPushed (acctStats s') = EventsPushed (acctStats s) + 1))"
proof -
  have A: "Influx_Init NewUDPClient bootEstimate sc s0 = (None, s1) \<longrightarrow>
      batching_inv s1 \<and> batch s1 = Some [] \<and> sendChan s1 = Some [] \<and>
      BatchWatermark (config s1) = (if BatchWatermark sc = 0 then 128 else BatchWatermark sc)"
    using Influx_Init_inv [of NewUDPClient bootEstimate sc s0 s1]
    by (simp add: defaultBatchWatermark_def)
  have B: "sendChanCap = 64" by (simp add: sendChanCap_def)
  have C: "batching_inv s \<longrightarrow>
      (\<exists>b q. batch s = Some b \<and> sendChan s = Some q \<and>
         (int (length b) + 1 < uint (BatchWatermark (config s)) \<longrightarrow>
            (\<exists>s'. Influx_Push e s = PushReturns s' \<and>
                  batch s' = Some (b @ [Point e (EnableSrcPort (config s)) (bootTime s)]) \<and>
                  sendChan s' = Some q)) \<and>
         (uint (BatchWatermark (config s)) \<le> int (length b) + 1 \<and> length q < sendChanCap \<longrightarrow>
            (\<exists>s'. Influx_Push e s = PushReturns s' \<and>
                  batch s' = Some [] \<and>
                  sendChan s' =
                    Some (q @ [b @ [Point e (EnableSrcPort (config s)) (bootTime s)]]))) \<and>
         (uint (BatchWatermark (config s)) \<le> int (length b) + 1 \<and> sendChanCap \<le> length q \<longrightarrow>
            Influx_Push e s = PushBlocks))"
  proof
    assume "batching_inv s"
    then obtain b q where b: "batch s = Some b" and q: "sendChan s = Some q"
      by (auto simp: batching_inv_def split: option.splits)
    have 1: "int (length b) + 1 < uint (BatchWatermark (config s)) \<longrightarrow>
            (\<exists>s'. Influx_Push e s = PushReturns s' \<and>
                  batch s' = Some (b @ [Point e (EnableSrcPort (config s)) (bootTime s)]) \<and>
                  sendChan s' = Some q)"
      using Influx_Push_below [OF b, of e] q by simp
    have 2: "uint (BatchWatermark (config s)) \<le> int (length b) + 1 \<and> length q < sendChanCap \<longrightarrow>
            (\<exists>s'. Influx_Push e s = PushReturns s' \<and>
                  batch s' = Some [] \<and>
                  sendChan s' =
                    Some (q @ [b @ [Point e (EnableSrcPort (config s)) (bootTime s)]]))"
      using Influx_Push_flush [OF b q, of e] by simp
    have 3: "uint (BatchWatermark (config s)) \<le> int (length b) + 1 \<and> sendChanCap \<le> length q \<longrightarrow>
            Influx_Push e s = PushBlocks"
      using Influx_Push_full [OF b q, of e] by simp
    from b q 1 2 3 show "\<exists>b q. batch s = Some b \<and> sendChan s = Some q \<and>
         (int (length b) + 1 < uint (BatchWatermark (config s)) \<longrightarrow>
            (\<exists>s'. Influx_Push e s = PushReturns s' \<and>
                  batch s' = Some (b @ [Point e (EnableSrcPort (config s)) (bootTime s)]) \<and>
                  sendChan s' = Some q)) \<and>
         (uint (BatchWatermark (config s)) \<le> int (length b) + 1 \<and> length q < sendChanCap \<longrightarrow>
            (\<exists>s'. Influx_Push e s = PushReturns s' \<and>
                  batch s' = Some [] \<and>
                  sendChan s' =
                    Some (q @ [b @ [Point e (EnableSrcPort (config s)) (bootTime s)]]))) \<and>
         (uint (BatchWatermark (config s)) \<le> int (length b) + 1 \<and> sendChanCap \<le> length q \<longrightarrow>
            Influx_Push e s = PushBlocks)"
      by blast
  qed
  have D: "batching_inv s \<longrightarrow> (\<forall>s'. Influx_Push e s = PushReturns s' \<longrightarrow>
         batching_inv s' \<and> config s' = config s \<and>
         EventsPushed (acctStats s') = EventsPushed (acctStats s) + 1)"
    using Influx_Push_inv [of s e] by blast
  from A B C D show ?thesis by blast
qed

theorem Influx_batching_watermark_witness:
  "batching_inv ex_influx \<and>
   (\<exists>s'. Influx_Push 6 ex_influx = PushReturns s' \<and> batch s' = Some [] \<and>
         sendChan s' = Some [[Point 5 False 0, Point 6 False 0]] \<and> batching_inv s') \<and>
   (\<exists>s1. Influx_Init ex_client 100 ex_config (Influx_New :: nat InfluxAcctSink) = (None, s1) \<and>
         BatchWatermark (config s1) = 128 \<and> batching_inv s1)"
proof -
  have inv: "batching_inv ex_influx"
    by (simp add: batching_inv_def ex_influx_def ex_config_def Influx_New_def sendChanCap_def)
  have b: "batch ex_influx = Some [Point 5 False 0]" and q: "sendChan ex_influx = Some []"
    and wm: "uint (BatchWatermark (config ex_influx)) = 2"
    and sp: "EnableSrcPort (config ex_influx) = False" and bt: "bootTime ex_influx = 0"
    by (simp_all add: ex_influx_def ex_config_def Influx_New_def)
  from Influx_batching_watermark [of ex_client 100 ex_config Influx_New _ ex_influx 6] inv
  obtain b' q' where f: "batch ex_influx = Some b'" "sendChan ex_influx = Some q'"
    and fl: "uint (BatchWatermark (config ex_influx)) \<le> int (length b') + 1 \<and> length q' < sendChanCap \<longrightarrow>
            (\<exists>s'. Influx_Push 6 ex_influx = PushReturns s' \<and>
                  batch s' = Some [] \<and>
                  sendChan s' =
                    Some (q' @ [b' @ [Point 6 (EnableSrcPort (config ex_influx)) (bootTime ex_influx)]]))"
    and keep: "\<forall>s'. Influx_Push 6 ex_influx = PushReturns s' \<longrightarrow> batching_inv s'"
    by blast
  from f b q have "b' = [Point 5 False 0]" "q' = []" by simp_all
  with fl wm sp bt obtain s' where s': "Influx_Push 6 ex_influx = PushReturns s'"
      "batch s' = Some []" "sendChan s' = Some [[Point 5 False 0, Point 6 False 0]]"
    by (auto simp: sendChanCap_def)
  with keep have "batching_inv s'" by blast
  with s' have P: "\<exists>s'. Influx_Push 6 ex_influx = PushReturns s' \<and> batch s' = Some [] \<and>
         sendChan s' = Some [[Point 5 False 0, Point 6 False 0]] \<and> batching_inv s'"
    by blast
  obtain s1 where i: "Influx_Init ex_client 100 ex_config (Influx_New :: nat InfluxAcctSink) = (None, s1)"
    by (simp add: Influx_Init_def ex_client_def ex_config_def Let_def)
  with Influx_batching_watermark [of ex_client 100 ex_config Influx_New s1 ex_influx 6]
  have "batching_inv s1" "BatchWatermark (config s1) = 128"
    by (simp_all add: ex_config_def)
  with i have I: "\<exists>s1. Influx_Init ex_client 100 ex_config (Influx_New :: nat InfluxAcctSink) = (None, s1) \<and>
         BatchWatermark (config s1) = 128 \<and> batching_inv s1"
    by blast
  from inv P I show ?thesis by blast
qed

end
